theory Spec2Isabelle
  imports Main "HOL-Library.Word"
begin

section \<open>The parsed document\<close>

text \<open>
  \<open>PreviewWindow::fixup_fullscreen_svg_images\<close> (src/MainUI/PreviewWindow.cpp, lines 595-658)
  inspects the tree that the Gumbo repair parser builds from the page text. The nodes are
  reached through \<open>GumboNode*\<close> pointers; a pointer is modelled as the address (a natural
  number) of a node, and the null pointer as \<open>None\<close>.
\<close>

datatype GumboNodeType =
    GUMBO_NODE_DOCUMENT
  | GUMBO_NODE_ELEMENT
  | GUMBO_NODE_TEXT
  | GUMBO_NODE_CDATA
  | GUMBO_NODE_COMMENT
  | GUMBO_NODE_WHITESPACE
  | GUMBO_NODE_TEMPLATE

text \<open>
  The tag enumeration of gumbo.h, cut down to the tags that occur in the examples. The
  function itself names \<open>GUMBO_TAG_IMAGE\<close>, \<open>GUMBO_TAG_SVG\<close> and \<open>GUMBO_TAG_BODY\<close> only.
\<close>

datatype GumboTag =
    GUMBO_TAG_HTML
  | GUMBO_TAG_HEAD
  | GUMBO_TAG_BODY
  | GUMBO_TAG_DIV
  | GUMBO_TAG_SVG
  | GUMBO_TAG_IMAGE
  | GUMBO_TAG_SCRIPT
  | GUMBO_TAG_STYLE
  | GUMBO_TAG_H1
  | GUMBO_TAG_H2
  | GUMBO_TAG_H3
  | GUMBO_TAG_H4
  | GUMBO_TAG_H5
  | GUMBO_TAG_H6
  | GUMBO_TAG_P
  | GUMBO_TAG_UNKNOWN

text \<open>
  The fields of \<open>GumboNode\<close> that the function reads: \<open>node->type\<close>, \<open>node->parent\<close>,
  \<open>node->v.element.tag\<close> and \<open>node->v.element.children\<close>.
\<close>

record GumboNode =
  ntype :: GumboNodeType
  parent :: "nat option"
  tag :: GumboTag
  children :: "nat list"

text \<open>
  \<open>GumboInterface\<close> is declared in Parsers/GumboInterface.h, outside PreviewWindow.cpp. Its
  members that the function calls are parameters of the model: \<open>node\<close> dereferences a node
  pointer, and the other four fields are the member functions of the same name, with the
  conversion of their results to \<open>QString\<close> included. \<open>get_attributes_of_node\<close> answers with a
  \<open>QHash<QString,QString>\<close>, a finite map. Nothing is assumed about what these members
  return: the theorems below hold for every interface.
\<close>

record GumboInterface =
  node :: "nat \<Rightarrow> GumboNode"
  get_all_nodes_with_tag :: "GumboTag \<Rightarrow> nat list"
  get_tag_name :: "nat \<Rightarrow> string"
  get_local_text_of_node :: "nat \<Rightarrow> string"
  get_attributes_of_node :: "nat \<Rightarrow> (string \<rightharpoonup> string)"

text \<open>
  What can go wrong below: \<open>gi.get_tag_name(myparent)\<close> reads the node behind its argument,
  so a null parent is a null dereference; \<open>child_names.at(0)\<close> on an empty list is an
  out-of-range access.
\<close>

datatype error = NullDereference | IndexOutOfRange

section \<open>Qt helpers\<close>

text \<open>
  The page text is a \<open>QString\<close>, a list of UTF-16 code units (\<open>QChar\<close>). Tag names,
  attribute names and values and flattened texts are only compared with ASCII literals
  and with the empty string; they are lists of 8-bit characters, and a \<open>QStringList\<close> of
  them is a list of such lists. \<open>latin1\<close> is \<open>QString::fromLatin1\<close>, for writing texts down.
\<close>

type_synonym QChar = "16 word"

type_synonym QString = "QChar list"

definition latin1 :: "string \<Rightarrow> QString" where
  "latin1 s = map (\<lambda>c. of_nat (of_char c)) s"

text \<open>\<open>QStringList::join(separator)\<close>.\<close>

fun join :: "string list \<Rightarrow> string \<Rightarrow> string" where
  "join [] sep = []"
| "join [x] sep = x"
| "join (x # y # ys) sep = x @ sep @ join (y # ys) sep"

text \<open>\<open>QHash::value(key, defaultValue)\<close>.\<close>

definition hash_value :: "(string \<rightharpoonup> string) \<Rightarrow> string \<Rightarrow> string \<Rightarrow> string" where
  "hash_value h key defaultValue = (case h key of None \<Rightarrow> defaultValue | Some v \<Rightarrow> v)"

text \<open>\<open>QString::replace(position, n, after)\<close> for a range inside the string.\<close>

definition qstring_replace :: "QString \<Rightarrow> nat \<Rightarrow> nat \<Rightarrow> QString \<Rightarrow> QString" where
  "qstring_replace s position n after = take position s @ after @ drop (position + n) s"

section \<open>The detector\<close>

definition HEADERTAGS :: "string list" where
  "HEADERTAGS = [''h1'', ''h2'', ''h3'', ''h4'', ''h5'', ''h6'']"

definition allowed_tags :: "string list" where
  "allowed_tags = [''div'', ''svg'']"

text \<open>
  Lines 621-625: whether a child of body is left out of the tally.
\<close>

definition ignore_tag :: "GumboInterface \<Rightarrow> nat \<Rightarrow> bool" where
  "ignore_tag gi child =
     (let name = get_tag_name gi child;
          ignore = (name = ''script'' \<or> name = ''style'')
      in if name \<in> set HEADERTAGS
         then ignore \<or> get_local_text_of_node gi child = []
         else ignore)"

text \<open>
  Lines 617-632: the loop over the immediate children of body, with its state
  \<open>(child_names, elcount)\<close>. The \<open>break\<close> sits inside the test for an element node, after
  the tally has been updated. The tally stops at 2, far from the range of a machine \<open>int\<close>.
\<close>

fun scan_children :: "GumboInterface \<Rightarrow> nat list \<Rightarrow> string list \<times> int \<Rightarrow> string list \<times> int" where
  "scan_children gi [] (child_names, elcount) = (child_names, elcount)"
| "scan_children gi (child # rest) (child_names, elcount) =
     (if ntype (node gi child) = GUMBO_NODE_ELEMENT then
        (let st = (if \<not> ignore_tag gi child
                   then (child_names @ [get_tag_name gi child], elcount + 1)
                   else (child_names, elcount))
         in if snd st > 1 then st else scan_children gi rest st)
      else scan_children gi rest (child_names, elcount))"

text \<open>
  Line 634: \<open>(elcount != 1) || !allowed_tags.contains(child_names.at(0))\<close>. The right operand
  is evaluated only when the left one is false. The result says whether the function
  goes on (\<open>True\<close>) or returns false here.
\<close>

definition child_check :: "string list \<times> int \<Rightarrow> error + bool" where
  "child_check st =
     (case st of (child_names, elcount) \<Rightarrow>
        if elcount \<noteq> 1 then Inr False
        else (case child_names of
                [] \<Rightarrow> Inl IndexOutOfRange
              | name0 # _ \<Rightarrow> Inr (name0 \<in> set allowed_tags)))"

text \<open>
  Lines 640-647: the walk from the image node towards body. The loop has no bound of
  its own, so it is a partial function: \<open>None\<close> is a walk that never ends.
\<close>

partial_function (option) ancestor_loop ::
  "GumboInterface \<Rightarrow> nat option \<Rightarrow> string list \<Rightarrow> (error + string list) option" where
  "ancestor_loop gi anode path_pieces =
     (case anode of
        None \<Rightarrow> Some (Inr path_pieces)
      | Some a \<Rightarrow>
          if ntype (node gi a) = GUMBO_NODE_ELEMENT \<and> tag (node gi a) = GUMBO_TAG_BODY
          then Some (Inr path_pieces)
          else (case parent (node gi a) of
                  None \<Rightarrow> Some (Inl NullDereference)
                | Some myparent \<Rightarrow>
                    ancestor_loop gi (Some myparent)
                      (if get_tag_name gi myparent \<noteq> ''script'' \<and> get_tag_name gi myparent \<noteq> ''style''
                       then get_tag_name gi myparent # path_pieces
                       else path_pieces)))"

text \<open>
  The whole function. Its first argument stands for the constructor call
  \<open>GumboInterface(text, "any_version")\<close> of line 597, the external parser.
\<close>

definition fixup_fullscreen_svg_images ::
  "(QString \<Rightarrow> GumboInterface) \<Rightarrow> QString \<Rightarrow> (error + bool) option" where
  "fixup_fullscreen_svg_images parse text =
     (let gi = parse text;
          image_tags = get_all_nodes_with_tag gi GUMBO_TAG_IMAGE;
          svg_tags = get_all_nodes_with_tag gi GUMBO_TAG_SVG;
          body_tags = get_all_nodes_with_tag gi GUMBO_TAG_BODY
      in if length image_tags \<noteq> 1 then Some (Inr False)
         else if length svg_tags \<noteq> 1 then Some (Inr False)
         else if length body_tags \<noteq> 1 then Some (Inr False)
         else
          (let image_node = image_tags ! 0;
               svg_node = svg_tags ! 0;
               body_node = body_tags ! 0
           in case child_check (scan_children gi (children (node gi body_node)) ([], 0)) of
                Inl e \<Rightarrow> Some (Inl e)
              | Inr False \<Rightarrow> Some (Inr False)
              | Inr True \<Rightarrow>
                 (case ancestor_loop gi (Some image_node) [get_tag_name gi image_node] of
                    None \<Rightarrow> None
                  | Some (Inl e) \<Rightarrow> Some (Inl e)
                  | Some (Inr path_pieces) \<Rightarrow>
                      (let apath = join path_pieces '','';
                           svgatts = get_attributes_of_node gi svg_node
                       in if apath \<noteq> ''body,div,svg,image'' \<and> apath \<noteq> ''body,svg,image''
                          then Some (Inr False)
                          else if hash_value svgatts ''width'' '''' = ''100%''
                                  \<and> hash_value svgatts ''height'' '''' = ''100%''
                          then Some (Inr True)
                          else Some (Inr False)))))"

section \<open>The rewrite in the caller\<close>

text \<open>
  \<open>PreviewWindow::UpdatePage\<close>, lines 297-319, searches the page text with two
  \<open>QRegularExpression\<close> patterns. Both are sequences of single-character classes, greedy
  repetitions of a single-character class, and one capture group:
  \<^verbatim>\<open><\s*svg\s[^>]*height\s*=\s*["'](100%)["'][^>]*>\<close> and the same with \<^verbatim>\<open>width\<close>.
  The options \<open>MultilineOption\<close> and \<open>DotMatchesEverythingOption\<close> change the meaning of
  \<^verbatim>\<open>^\<close>, \<^verbatim>\<open>$\<close> and \<^verbatim>\<open>.\<close> only, which the patterns do not use.

  The classes are sets of UTF-16 code units. No class of the two patterns other than
  \<^verbatim>\<open>[^>]\<close> holds a surrogate, and \<^verbatim>\<open>[^>]*\<close> sits between pieces that match ASCII characters;
  so on a well-formed text no match begins or ends inside a surrogate pair, and matching
  unit by unit finds what matching character by character finds.
\<close>

datatype cclass = OneOf "QChar list" | NoneOf "QChar list"

fun cc_match :: "cclass \<Rightarrow> QChar \<Rightarrow> bool" where
  "cc_match (OneOf cs) c = (c \<in> set cs)"
| "cc_match (NoneOf cs) c = (c \<notin> set cs)"

datatype piece = One cclass | Many cclass | GroupOpen | GroupClose

text \<open>
  Matching a pattern at the front of \<open>s\<close>, which starts at offset \<open>pos\<close> of the text.
  \<open>cap\<close> is \<open>(capturedStart(1), capturedLength(1))\<close>. A greedy repetition first takes one
  more character and gives it back when the rest of the pattern fails.
\<close>

fun match_here :: "piece list \<Rightarrow> QString \<Rightarrow> nat \<Rightarrow> nat \<times> nat \<Rightarrow> (nat \<times> nat) option" where
  "match_here [] s pos cap = Some cap"
| "match_here (One c # ps) [] pos cap = None"
| "match_here (One c # ps) (x # xs) pos cap =
     (if cc_match c x then match_here ps xs (Suc pos) cap else None)"
| "match_here (Many c # ps) [] pos cap = match_here ps [] pos cap"
| "match_here (Many c # ps) (x # xs) pos cap =
     (if cc_match c x then
        (case match_here (Many c # ps) xs (Suc pos) cap of
           Some r \<Rightarrow> Some r
         | None \<Rightarrow> match_here ps (x # xs) pos cap)
      else match_here ps (x # xs) pos cap)"
| "match_here (GroupOpen # ps) s pos cap = match_here ps s pos (pos, snd cap)"
| "match_here (GroupClose # ps) s pos cap = match_here ps s pos (fst cap, pos - fst cap)"

text \<open>The leftmost offset at which the pattern matches.\<close>

fun rx_search :: "piece list \<Rightarrow> QString \<Rightarrow> nat \<Rightarrow> (nat \<times> nat) option" where
  "rx_search ps [] pos = match_here ps [] pos (0, 0)"
| "rx_search ps (x # xs) pos =
     (case match_here ps (x # xs) pos (0, 0) of
        Some r \<Rightarrow> Some r
      | None \<Rightarrow> rx_search ps xs (Suc pos))"

text \<open>
  \<open>QRegularExpression::match(text, 0)\<close> without \<open>DontCheckSubjectStringMatchOption\<close> checks
  first that the subject is well-formed UTF-16, every high surrogate followed by a low
  one and no low surrogate on its own, and reports no match for a subject that is not.
\<close>

definition is_high_surrogate :: "QChar \<Rightarrow> bool" where
  "is_high_surrogate u = (0xD800 \<le> u \<and> u \<le> 0xDBFF)"

definition is_low_surrogate :: "QChar \<Rightarrow> bool" where
  "is_low_surrogate u = (0xDC00 \<le> u \<and> u \<le> 0xDFFF)"

fun utf16_valid :: "QString \<Rightarrow> bool" where
  "utf16_valid [] = True"
| "utf16_valid [u] = (\<not> is_high_surrogate u \<and> \<not> is_low_surrogate u)"
| "utf16_valid (u # l # rest) =
     (if is_high_surrogate u then is_low_surrogate l \<and> utf16_valid rest
      else \<not> is_low_surrogate u \<and> utf16_valid (l # rest))"

definition regex_match :: "piece list \<Rightarrow> QString \<Rightarrow> (nat \<times> nat) option" where
  "regex_match pattern text = (if utf16_valid text then rx_search pattern text 0 else None)"

text \<open>\<^verbatim>\<open>\s\<close>: tab, line feed, vertical tab, form feed, carriage return, space.\<close>

definition ws :: cclass where
  "ws = OneOf [0x09, 0x0A, 0x0B, 0x0C, 0x0D, 0x20]"

text \<open>\<^verbatim>\<open>["']\<close>.\<close>

definition quote :: cclass where
  "quote = OneOf [0x22, 0x27]"

text \<open>
  A lower-case ASCII letter of a pattern under \<open>CaseInsensitiveOption\<close>. The patterns are
  compiled for UTF-16, where a letter matches every character of its Unicode case
  class: itself, its capital, and for \<open>s\<close> the long s (U+017F), for \<open>k\<close> the Kelvin sign (U+212A).
\<close>

definition letter :: "QChar \<Rightarrow> piece" where
  "letter l = One (OneOf ([l, l - 0x20]
                 @ (if l = 0x73 then [0x017F] else if l = 0x6B then [0x212A] else [])))"

definition caseless :: "string \<Rightarrow> piece list" where
  "caseless name = map letter (latin1 name)"

text \<open>\<^verbatim>\<open><\s*svg\s[^>]*\<close>.\<close>

definition svg_open :: "piece list" where
  "svg_open = [One (OneOf [0x3C]), Many ws] @ caseless ''svg'' @ [One ws, Many (NoneOf [0x3E])]"

text \<open>\<^verbatim>\<open>\s*=\s*["'](100%)["'][^>]*>\<close>.\<close>

definition percent_value :: "piece list" where
  "percent_value =
     [Many ws, One (OneOf [0x3D]), Many ws, One quote, GroupOpen,
      One (OneOf [0x31]), One (OneOf [0x30]), One (OneOf [0x30]), One (OneOf [0x25]),
      GroupClose, One quote, Many (NoneOf [0x3E]), One (OneOf [0x3E])]"

definition svg_height :: "piece list" where
  "svg_height = svg_open @ caseless ''height'' @ percent_value"

definition svg_width :: "piece list" where
  "svg_width = svg_open @ caseless ''width'' @ percent_value"

text \<open>Lines 302-307 and 313-318: one search, and the replacement of the captured range.\<close>

definition substitute :: "piece list \<Rightarrow> QString \<Rightarrow> QString \<Rightarrow> QString" where
  "substitute pattern after text =
     (case regex_match pattern text of
        None \<Rightarrow> text
      | Some (bp, n) \<Rightarrow> qstring_replace text bp n after)"


section \<open>The specification's vocabulary\<close>

text \<open>
  Step 5 of the specified algorithm, without the early exit: a child of body is skipped
  when it is tagged \<open>script\<close> or \<open>style\<close>, or when it is a heading whose flattened text is
  empty; every other element child is significant.
\<close>

definition spec_skipped :: "GumboInterface \<Rightarrow> nat \<Rightarrow> bool" where
  "spec_skipped gi child =
     (get_tag_name gi child = ''script'' \<or> get_tag_name gi child = ''style''
      \<or> (get_tag_name gi child \<in> {''h1'', ''h2'', ''h3'', ''h4'', ''h5'', ''h6''}
          \<and> get_local_text_of_node gi child = []))"

definition significant_children :: "GumboInterface \<Rightarrow> nat list \<Rightarrow> nat list" where
  "significant_children gi cs =
     filter (\<lambda>c. ntype (node gi c) = GUMBO_NODE_ELEMENT \<and> \<not> spec_skipped gi c) cs"

definition full_scan :: "GumboInterface \<Rightarrow> nat list \<Rightarrow> string list \<times> int" where
  "full_scan gi cs =
     (map (get_tag_name gi) (significant_children gi cs),
      int (length (significant_children gi cs)))"

text \<open>
  The chain of ancestors of a node up to body: \<open>ancestors_to_body gi a ps\<close> says that
  \<open>ps\<close> lists the parent of \<open>a\<close>, its grandparent and so on, that the last of them is the
  first body element on the way up, and that \<open>a\<close> itself is body when \<open>ps\<close> is empty.
\<close>

definition is_body :: "GumboInterface \<Rightarrow> nat \<Rightarrow> bool" where
  "is_body gi a = (ntype (node gi a) = GUMBO_NODE_ELEMENT \<and> tag (node gi a) = GUMBO_TAG_BODY)"

fun ancestors_to_body :: "GumboInterface \<Rightarrow> nat \<Rightarrow> nat list \<Rightarrow> bool" where
  "ancestors_to_body gi a [] = is_body gi a"
| "ancestors_to_body gi a (p # ps) =
     (\<not> is_body gi a \<and> parent (node gi a) = Some p \<and> ancestors_to_body gi p ps)"

text \<open>
  The path with the ancestors that are themselves tagged \<open>script\<close> or \<open>style\<close> left out.
\<close>

definition ancestor_names :: "GumboInterface \<Rightarrow> nat \<Rightarrow> nat list \<Rightarrow> string list" where
  "ancestor_names gi a ps =
     rev (filter (\<lambda>name. name \<noteq> ''script'' \<and> name \<noteq> ''style'') (map (get_tag_name gi) ps))
     @ [get_tag_name gi a]"

text \<open>
  The path as step 7 of the specification words it: an ancestor is left out when its own
  parent is tagged \<open>script\<close> or \<open>style\<close>.
\<close>

definition parent_is_script_or_style :: "GumboInterface \<Rightarrow> nat \<Rightarrow> bool" where
  "parent_is_script_or_style gi a =
     (case parent (node gi a) of
        None \<Rightarrow> False
      | Some p \<Rightarrow> get_tag_name gi p = ''script'' \<or> get_tag_name gi p = ''style'')"

definition spec_ancestor_names :: "GumboInterface \<Rightarrow> nat \<Rightarrow> nat list \<Rightarrow> string list" where
  "spec_ancestor_names gi a ps =
     rev (map (get_tag_name gi) (filter (\<lambda>p. \<not> parent_is_script_or_style gi p) ps))
     @ [get_tag_name gi a]"

text \<open>
  Two interfaces that agree on everything the detector reads except the child lists.
\<close>

definition same_but_children :: "GumboInterface \<Rightarrow> GumboInterface \<Rightarrow> bool" where
  "same_but_children gi gi' =
     ((\<forall>p. ntype (node gi' p) = ntype (node gi p) \<and> tag (node gi' p) = tag (node gi p)
           \<and> parent (node gi' p) = parent (node gi p))
      \<and> get_all_nodes_with_tag gi' = get_all_nodes_with_tag gi
      \<and> get_tag_name gi' = get_tag_name gi
      \<and> get_local_text_of_node gi' = get_local_text_of_node gi
      \<and> get_attributes_of_node gi' = get_attributes_of_node gi)"

text \<open>
  \<open>nth_ancestor gi n a\<close> follows \<open>n\<close> parent links from \<open>a\<close>; it is how "body is among the
  ancestors of the image" is said without reference to the loop.
\<close>

fun nth_ancestor :: "GumboInterface \<Rightarrow> nat \<Rightarrow> nat \<Rightarrow> nat option" where
  "nth_ancestor gi 0 a = Some a"
| "nth_ancestor gi (Suc n) a =
     (case parent (node gi a) of None \<Rightarrow> None | Some p \<Rightarrow> nth_ancestor gi n p)"

text \<open>
  The ancestor path with every ancestor named, none left out.
\<close>

definition literal_ancestor_names :: "GumboInterface \<Rightarrow> nat \<Rightarrow> nat list \<Rightarrow> string list" where
  "literal_ancestor_names gi a ps = rev (map (get_tag_name gi) ps) @ [get_tag_name gi a]"

text \<open>
  What the caller's rewrite is to do, said without the patterns and without the search.
  White space is the six characters of \<open>\s\<close>, a quote is \<open>"\<close> or \<open>'\<close>, and a letter of a
  name stands for itself, for its capital and, with \<open>s\<close> and \<open>k\<close>, for the long s and the
  Kelvin sign.
\<close>

definition is_space :: "QChar \<Rightarrow> bool" where
  "is_space u = (u \<in> {0x09, 0x0A, 0x0B, 0x0C, 0x0D, 0x20})"

definition is_quote :: "QChar \<Rightarrow> bool" where
  "is_quote u = (u = 0x22 \<or> u = 0x27)"

definition same_letter :: "QChar \<Rightarrow> QChar \<Rightarrow> bool" where
  "same_letter l u =
     (u = l \<or> u = l - 0x20 \<or> (l = 0x73 \<and> u = 0x017F) \<or> (l = 0x6B \<and> u = 0x212A))"

text \<open>
  \<open>open_shape w\<close>: the text \<open>w\<close> opens an svg start tag: \<open><\<close>, white space, the name \<open>svg\<close>
  in any case, and one white space character.
\<close>

definition open_shape :: "QString \<Rightarrow> bool" where
  "open_shape w =
     (\<exists>w1 name sp. w = 0x3C # w1 @ name @ [sp]
        \<and> list_all is_space w1 \<and> list_all2 same_letter (latin1 ''svg'') name \<and> is_space sp)"

text \<open>
  \<open>value_shape attr w c\<close>: the text \<open>w\<close> is the attribute \<open>attr\<close> with the quoted value \<open>100%\<close>
  and the rest of the tag, the value beginning at offset \<open>c\<close> of \<open>w\<close>: the attribute name in
  any case, white space, \<open>=\<close>, white space, a quote, \<open>100%\<close>, a quote, characters other than
  \<open>>\<close>, and \<open>>\<close>.
\<close>

definition value_shape :: "string \<Rightarrow> QString \<Rightarrow> nat \<Rightarrow> bool" where
  "value_shape attr w c =
     (\<exists>aname w2 w3 q1 q2 junk2.
        w = aname @ w2 @ 0x3D # w3 @ q1 # latin1 ''100%'' @ q2 # junk2 @ [0x3E]
        \<and> list_all2 same_letter (latin1 attr) aname
        \<and> list_all is_space w2 \<and> list_all is_space w3 \<and> is_quote q1 \<and> is_quote q2
        \<and> 0x3E \<notin> set junk2
        \<and> c = length aname + length w2 + 1 + length w3 + 1)"

text \<open>
  \<open>tag_shape attr w a off\<close>: the text \<open>w\<close> is an svg start tag that holds the attribute \<open>attr\<close>
  with the quoted value \<open>100%\<close>; the attribute begins at offset \<open>a\<close> of \<open>w\<close> and its value at
  offset \<open>off\<close>. Between the opening and the attribute stand characters other than \<open>>\<close>.
\<close>

definition tag_shape :: "string \<Rightarrow> QString \<Rightarrow> nat \<Rightarrow> nat \<Rightarrow> bool" where
  "tag_shape attr w a off =
     (\<exists>stag junk val c.
        w = stag @ junk @ val
        \<and> open_shape stag \<and> 0x3E \<notin> set junk \<and> value_shape attr val c
        \<and> a = length stag + length junk \<and> off = a + c)"

text \<open>
  \<open>svg_attr_at attr t i a bp\<close>: such a tag begins at offset \<open>i\<close> of the text \<open>t\<close>, its attribute
  at offset \<open>a\<close> and the value \<open>100%\<close> at offset \<open>bp\<close> of \<open>t\<close>.
\<close>

definition svg_attr_at :: "string \<Rightarrow> QString \<Rightarrow> nat \<Rightarrow> nat \<Rightarrow> nat \<Rightarrow> bool" where
  "svg_attr_at attr t i a bp =
     (\<exists>w rest a0 off. drop i t = w @ rest \<and> tag_shape attr w a0 off \<and> a = i + a0 \<and> bp = i + off)"

text \<open>
  One substitution step from \<open>t\<close> to \<open>t'\<close>. When the text is well-formed and holds such a
  tag, the four characters \<open>100%\<close> of the first such tag are replaced by \<open>after\<close> and every
  other character is kept; otherwise the text stays as it is. Where the first tag holds the
  attribute several times, the value replaced is that of the last of them.
\<close>

definition one_substitution :: "string \<Rightarrow> QString \<Rightarrow> QString \<Rightarrow> QString \<Rightarrow> bool" where
  "one_substitution attr after t t' =
     (if utf16_valid t \<and> (\<exists>i a bp. svg_attr_at attr t i a bp)
      then \<exists>i a bp. svg_attr_at attr t i a bp
                  \<and> (\<forall>j a' bp'. svg_attr_at attr t j a' bp' \<longrightarrow> i \<le> j \<and> (j = i \<longrightarrow> a' \<le> a))
                  \<and> take 4 (drop bp t) = latin1 ''100%''
                  \<and> t' = take bp t @ after @ drop (bp + 4) t
      else t' = t)"

text \<open>
  The words a pattern matches exactly, for the proofs about the search: \<open>exact ps w pos cap r\<close>
  says that the pattern \<open>ps\<close> matches the whole of \<open>w\<close>, which begins at offset \<open>pos\<close>, and
  turns the capture \<open>cap\<close> into \<open>r\<close>.
\<close>

fun exact :: "piece list \<Rightarrow> QString \<Rightarrow> nat \<Rightarrow> nat \<times> nat \<Rightarrow> nat \<times> nat \<Rightarrow> bool" where
  "exact [] w pos cap r = (w = [] \<and> r = cap)"
| "exact (One c # ps) w pos cap r =
     (case w of [] \<Rightarrow> False | x # xs \<Rightarrow> cc_match c x \<and> exact ps xs (Suc pos) cap r)"
| "exact (Many c # ps) w pos cap r =
     (\<exists>k \<le> length w. list_all (cc_match c) (take k w) \<and> exact ps (drop k w) (pos + k) cap r)"
| "exact (GroupOpen # ps) w pos cap r = exact ps w pos (pos, snd cap) r"
| "exact (GroupClose # ps) w pos cap r = exact ps w pos (fst cap, pos - fst cap) r"


section \<open>Example documents\<close>

text \<open>
  Parsed documents for the examples below, written as tables: the nodes by address, the
  tag names, the flattened texts and the attributes. \<open>get_all_nodes_with_tag\<close> lists the
  element nodes of the table that carry the tag, in the order of the table.
\<close>

definition element :: "GumboTag \<Rightarrow> nat \<Rightarrow> nat list \<Rightarrow> GumboNode" where
  "element t p cs = \<lparr>ntype = GUMBO_NODE_ELEMENT, parent = Some p, tag = t, children = cs\<rparr>"

definition interface_of ::
  "(nat \<times> GumboNode) list \<Rightarrow> (nat \<times> string) list \<Rightarrow> (nat \<times> string) list
     \<Rightarrow> (nat \<times> (string \<times> string) list) list \<Rightarrow> GumboInterface" where
  "interface_of nodes names texts atts =
     \<lparr>node = (\<lambda>p. case map_of nodes p of
                     Some n \<Rightarrow> n
                   | None \<Rightarrow> \<lparr>ntype = GUMBO_NODE_TEXT, parent = None,
                              tag = GUMBO_TAG_UNKNOWN, children = []\<rparr>),
      get_all_nodes_with_tag =
        (\<lambda>t. map fst (filter (\<lambda>(p, n). ntype n = GUMBO_NODE_ELEMENT \<and> tag n = t) nodes)),
      get_tag_name = (\<lambda>p. case map_of names p of Some s \<Rightarrow> s | None \<Rightarrow> ''#text''),
      get_local_text_of_node = (\<lambda>p. case map_of texts p of Some s \<Rightarrow> s | None \<Rightarrow> []),
      get_attributes_of_node =
        (\<lambda>p. case map_of atts p of Some al \<Rightarrow> map_of al | None \<Rightarrow> Map.empty)\<rparr>"

text \<open>
  \<open>html > (head, body)\<close>, with \<open>div > svg > image\<close> at addresses 4, 5, 6, a heading at 7 and
  two paragraphs at 8 and 9. The arguments choose which of 4, 7, 8, 9 are children of
  body, the flattened text of the heading and the attributes of the svg element.
\<close>

definition page :: "nat list \<Rightarrow> string \<Rightarrow> (string \<times> string) list \<Rightarrow> GumboInterface" where
  "page body_children h1_text svg_atts =
     interface_of
       [(0, \<lparr>ntype = GUMBO_NODE_DOCUMENT, parent = None, tag = GUMBO_TAG_UNKNOWN, children = [1]\<rparr>),
        (1, element GUMBO_TAG_HTML 0 [2, 3]),
        (2, element GUMBO_TAG_HEAD 1 []),
        (3, element GUMBO_TAG_BODY 1 body_children),
        (4, element GUMBO_TAG_DIV 3 [5]),
        (5, element GUMBO_TAG_SVG 4 [6]),
        (6, element GUMBO_TAG_IMAGE 5 []),
        (7, element GUMBO_TAG_H1 3 []),
        (8, element GUMBO_TAG_P 3 []),
        (9, element GUMBO_TAG_P 3 [])]
       [(0, ''#document''), (1, ''html''), (2, ''head''), (3, ''body''), (4, ''div''),
        (5, ''svg''), (6, ''image''), (7, ''h1''), (8, ''p''), (9, ''p'')]
       [(7, h1_text)]
       [(5, svg_atts)]"

definition full_size :: "(string \<times> string) list" where
  "full_size = [(''width'', ''100%''), (''height'', ''100%'')]"

text \<open>\<open>body > div > svg > (image, image)\<close>.\<close>

definition two_images :: GumboInterface where
  "two_images =
     interface_of
       [(0, \<lparr>ntype = GUMBO_NODE_DOCUMENT, parent = None, tag = GUMBO_TAG_UNKNOWN, children = [1]\<rparr>),
        (1, element GUMBO_TAG_HTML 0 [2, 3]),
        (2, element GUMBO_TAG_HEAD 1 []),
        (3, element GUMBO_TAG_BODY 1 [4]),
        (4, element GUMBO_TAG_DIV 3 [5]),
        (5, element GUMBO_TAG_SVG 4 [6, 7]),
        (6, element GUMBO_TAG_IMAGE 5 []),
        (7, element GUMBO_TAG_IMAGE 5 [])]
       [(0, ''#document''), (1, ''html''), (2, ''head''), (3, ''body''), (4, ''div''),
        (5, ''svg''), (6, ''image''), (7, ''image'')]
       []
       [(5, full_size)]"

text \<open>\<open>body > div > div > svg > image\<close>.\<close>

definition nested_divs :: GumboInterface where
  "nested_divs =
     interface_of
       [(0, \<lparr>ntype = GUMBO_NODE_DOCUMENT, parent = None, tag = GUMBO_TAG_UNKNOWN, children = [1]\<rparr>),
        (1, element GUMBO_TAG_HTML 0 [2, 3]),
        (2, element GUMBO_TAG_HEAD 1 []),
        (3, element GUMBO_TAG_BODY 1 [4]),
        (4, element GUMBO_TAG_DIV 3 [5]),
        (5, element GUMBO_TAG_DIV 4 [6]),
        (6, element GUMBO_TAG_SVG 5 [7]),
        (7, element GUMBO_TAG_IMAGE 6 [])]
       [(0, ''#document''), (1, ''html''), (2, ''head''), (3, ''body''), (4, ''div''),
        (5, ''div''), (6, ''svg''), (7, ''image'')]
       []
       [(6, full_size)]"

text \<open>\<open>body > svg > style > image\<close>: the image sits inside a style element of the svg.\<close>

definition image_in_style :: GumboInterface where
  "image_in_style =
     interface_of
       [(0, \<lparr>ntype = GUMBO_NODE_DOCUMENT, parent = None, tag = GUMBO_TAG_UNKNOWN, children = [1]\<rparr>),
        (1, element GUMBO_TAG_HTML 0 [2, 3]),
        (2, element GUMBO_TAG_HEAD 1 []),
        (3, element GUMBO_TAG_BODY 1 [4]),
        (4, element GUMBO_TAG_SVG 3 [5]),
        (5, element GUMBO_TAG_STYLE 4 [6]),
        (6, element GUMBO_TAG_IMAGE 5 [])]
       [(0, ''#document''), (1, ''html''), (2, ''head''), (3, ''body''), (4, ''svg''),
        (5, ''style''), (6, ''image'')]
       []
       [(4, full_size)]"

text \<open>The page of the specification's end-to-end example, and the same with bare attribute values.\<close>

definition quoted_text :: QString where
  \<open>quoted_text = latin1 ''<body><div><svg width="100%" height="100%"><image/></svg></div></body>''\<close>


text \<open>The markup of the other example documents.\<close>

definition two_images_text :: QString where
  \<open>two_images_text =
     latin1 ''<body><div><svg width="100%" height="100%"><image/><image/></svg></div></body>''\<close>

definition nested_divs_text :: QString where
  \<open>nested_divs_text =
     latin1 ''<body><div><div><svg width="100%" height="100%"><image/></svg></div></div></body>''\<close>

definition image_in_style_text :: QString where
  \<open>image_in_style_text =
     latin1 ''<body><svg width="100%" height="100%"><style><image/></style></svg></body>''\<close>

definition height_99_text :: QString where
  \<open>height_99_text = latin1 ''<body><div><svg width="100%" height="99%"><image/></svg></div></body>''\<close>

definition no_height_text :: QString where
  \<open>no_height_text = latin1 ''<body><div><svg width="100%"><image/></svg></div></body>''\<close>

definition empty_heading_text :: QString where
  \<open>empty_heading_text =
     latin1 ''<body><h1></h1><div><svg width="100%" height="100%"><image/></svg></div></body>''\<close>

definition nbsp_heading_text :: QString where
  \<open>nbsp_heading_text =
     latin1 ''<body><h1>&nbsp;</h1><div><svg width="100%" height="100%"><image/></svg></div></body>''\<close>

definition paragraphs_text :: QString where
  \<open>paragraphs_text =
     latin1 ''<body><div><svg width="100%" height="100%"><image/></svg></div><p></p><p></p></body>''\<close>

definition title_heading_text :: QString where
  \<open>title_heading_text =
     latin1 ''<body><h1>Title</h1><div><svg width="100%" height="100%"><image/></svg></div></body>''\<close>


text \<open>An svg start tag written with a long s (U+017F) in place of the \<open>s\<close>.\<close>

definition long_s_text :: QString where
  \<open>long_s_text = latin1 ''<'' @ [0x017F] @ latin1 ''vg height="100%">''\<close>

definition long_s_rewritten :: QString where
  \<open>long_s_rewritten = latin1 ''<'' @ [0x017F] @ latin1 ''vg height="100vh">''\<close>

text \<open>An svg start tag that holds the attribute \<open>height\<close> twice.\<close>

definition twice_text :: QString where
  \<open>twice_text = latin1 ''<svg height="100%" height="100%">''\<close>

definition twice_rewritten :: QString where
  \<open>twice_rewritten = latin1 ''<svg height="100%" height="100vh">''\<close>

text \<open>Two nodes that are each other's parent, neither of them body.\<close>

definition parent_cycle :: GumboInterface where
  "parent_cycle =
     interface_of
       [(0, element GUMBO_TAG_DIV 1 [1]),
        (1, element GUMBO_TAG_DIV 0 [0])]
       [(0, ''div''), (1, ''div'')]
       []
       []"

section \<open>Evaluation rules\<close>

lemmas fixture_defs = page_def two_images_def nested_divs_def image_in_style_def parent_cycle_def
  interface_of_def element_def full_size_def

lemmas detector_defs = fixup_fullscreen_svg_images_def child_check_def ignore_tag_def
  HEADERTAGS_def allowed_tags_def hash_value_def is_body_def

lemmas rx_defs = svg_height_def svg_width_def svg_open_def percent_value_def caseless_def
  letter_def ws_def quote_def substitute_def qstring_replace_def regex_match_def latin1_def
  is_high_surrogate_def is_low_surrogate_def

lemmas spec_defs = significant_children_def spec_skipped_def ancestor_names_def

section \<open>The scan of the children of body\<close>

text \<open>
  The scan with the early exit returns the first two significant names and the smaller
  of 2 and their number.
\<close>

lemma ignore_tag_spec: "ignore_tag gi c = spec_skipped gi c"
  by (auto simp: ignore_tag_def spec_skipped_def HEADERTAGS_def Let_def)

lemma scan_children_take:
  "k \<le> 1 \<Longrightarrow>
   scan_children gi cs (names, k) =
     (names @ take (nat (2 - k)) (map (get_tag_name gi) (significant_children gi cs)),
      k + int (min (nat (2 - k)) (length (significant_children gi cs))))"
proof (induction cs arbitrary: names k)
  case Nil
  then show ?case by (simp add: significant_children_def)
next
  case (Cons c cs)
  show ?case
  proof (cases "ntype (node gi c) = GUMBO_NODE_ELEMENT \<and> \<not> spec_skipped gi c")
    case False
    then have sig: "significant_children gi (c # cs) = significant_children gi cs"
      by (auto simp: significant_children_def)
    from False Cons.prems have "scan_children gi (c # cs) (names, k) = scan_children gi cs (names, k)"
      by (auto simp: ignore_tag_spec Let_def)
    then show ?thesis using Cons.IH[OF Cons.prems] sig by simp
  next
    case True
    then have sig: "significant_children gi (c # cs) = c # significant_children gi cs"
      by (auto simp: significant_children_def)
    show ?thesis
    proof (cases "k = 1")
      case True
      with \<open>ntype (node gi c) = GUMBO_NODE_ELEMENT \<and> \<not> spec_skipped gi c\<close>
      show ?thesis by (simp add: ignore_tag_spec sig)
    next
      case False
      with Cons.prems have k1: "k + 1 \<le> 1" by simp
      have n: "nat (2 - k) = Suc (nat (2 - (k + 1)))" using k1 by simp
      from True k1 have "scan_children gi (c # cs) (names, k)
          = scan_children gi cs (names @ [get_tag_name gi c], k + 1)"
        by (simp add: ignore_tag_spec)
      also note Cons.IH[OF k1]
      finally show ?thesis unfolding sig n by simp
    qed
  qed
qed

lemma scan_children_full:
  "scan_children gi cs ([], 0) =
     (take 2 (map (get_tag_name gi) (significant_children gi cs)),
      int (min 2 (length (significant_children gi cs))))"
  using scan_children_take[of 0 gi cs "[]"] by simp

lemma child_check_scan:
  "child_check (scan_children gi cs ([], 0)) = child_check (full_scan gi cs)"
  unfolding scan_children_full full_scan_def child_check_def
  by (cases "significant_children gi cs" rule: list.exhaust; cases "tl (significant_children gi cs)") (auto simp: min_def)

lemma child_check_full_scan:
  "child_check (full_scan gi cs) =
     Inr (\<exists>c. significant_children gi cs = [c] \<and> get_tag_name gi c \<in> set allowed_tags)"
  by (cases "significant_children gi cs" rule: list.exhaust)
     (auto simp: child_check_def full_scan_def)

lemma scan_children_invariant:
  "int (length names) = k \<Longrightarrow> scan_children gi cs (names, k) = (names', k') \<Longrightarrow>
   int (length names') = k'"
proof (induction cs arbitrary: names k)
  case Nil
  then show ?case by simp
next
  case (Cons c cs)
  show ?case
  proof (cases "ntype (node gi c) = GUMBO_NODE_ELEMENT")
    case False
    with Cons.prems(2) have "scan_children gi cs (names, k) = (names', k')" by simp
    from Cons.IH[OF Cons.prems(1) this] show ?thesis .
  next
    case True
    show ?thesis
    proof (cases "ignore_tag gi c")
      case ig: True
      show ?thesis
      proof (cases "k > 1")
        case True
        with ig \<open>ntype (node gi c) = GUMBO_NODE_ELEMENT\<close> Cons.prems show ?thesis by simp
      next
        case False
        with ig \<open>ntype (node gi c) = GUMBO_NODE_ELEMENT\<close> Cons.prems(2)
        have "scan_children gi cs (names, k) = (names', k')" by simp
        from Cons.IH[OF Cons.prems(1) this] show ?thesis .
      qed
    next
      case ig: False
      have inv: "int (length (names @ [get_tag_name gi c])) = k + 1"
        using Cons.prems(1) by simp
      show ?thesis
      proof (cases "k + 1 > 1")
        case True
        with ig \<open>ntype (node gi c) = GUMBO_NODE_ELEMENT\<close> Cons.prems(2)
        have "names' = names @ [get_tag_name gi c]" "k' = k + 1" by simp_all
        with inv show ?thesis by simp
      next
        case False
        with ig \<open>ntype (node gi c) = GUMBO_NODE_ELEMENT\<close> Cons.prems(2)
        have "scan_children gi cs (names @ [get_tag_name gi c], k + 1) = (names', k')" by simp
        from Cons.IH[OF inv this] show ?thesis .
      qed
    qed
  qed
qed

lemma child_check_in_bounds:
  "int (length names) = k \<Longrightarrow> child_check (names, k) \<noteq> Inl IndexOutOfRange"
  by (cases names) (auto simp: child_check_def)

lemma significant_children_append:
  "significant_children gi (xs @ ys) = significant_children gi xs @ significant_children gi ys"
  by (simp add: significant_children_def)

lemma scan_children_same:
  assumes "same_but_children gi gi'"
  shows "scan_children gi' cs st = scan_children gi cs st"
proof -
  from assms have nt: "\<And>p. ntype (node gi' p) = ntype (node gi p)"
    and nm: "get_tag_name gi' = get_tag_name gi"
    and tx: "get_local_text_of_node gi' = get_local_text_of_node gi"
    by (simp_all add: same_but_children_def)
  have ig: "\<And>c. ignore_tag gi' c = ignore_tag gi c"
    by (simp add: ignore_tag_def nm tx)
  show ?thesis
  proof (induction cs arbitrary: st)
    case Nil
    show ?case by (cases st) simp
  next
    case (Cons c cs)
    show ?case by (cases st) (simp add: nt nm ig Let_def Cons.IH)
  qed
qed

lemma heading_skipped:
  "get_tag_name gi h \<in> set HEADERTAGS \<Longrightarrow> get_local_text_of_node gi h = [] \<Longrightarrow>
   significant_children gi (before @ h # after) = significant_children gi (before @ after)"
  by (auto simp: significant_children_def spec_skipped_def HEADERTAGS_def)

lemma heading_counted:
  assumes "ntype (node gi h) = GUMBO_NODE_ELEMENT"
    and "get_tag_name gi h \<in> set HEADERTAGS"
    and "get_local_text_of_node gi h \<noteq> []"
    and "c \<in> set (before @ after)"
    and "ntype (node gi c) = GUMBO_NODE_ELEMENT"
    and "get_tag_name gi c = ''div'' \<or> get_tag_name gi c = ''svg''"
  shows "1 < length (significant_children gi (before @ h # after))"
proof -
  have sh: "significant_children gi [h] = [h]"
    using assms(1-3) by (auto simp: significant_children_def spec_skipped_def HEADERTAGS_def)
  have "c \<in> set (significant_children gi (before @ after))"
    using assms(4-6) by (auto simp: significant_children_def spec_skipped_def)
  then have "0 < length (significant_children gi (before @ after))"
    by (cases "significant_children gi (before @ after)") auto
  moreover have "length (significant_children gi (before @ h # after))
      = length (significant_children gi (before @ after)) + 1"
    using sh significant_children_append[of gi before "[h] @ after"]
      significant_children_append[of gi "[h]" after]
    by (simp add: significant_children_append)
  ultimately show ?thesis by simp
qed

section \<open>The walk to body\<close>

lemma ancestor_loop_chain:
  "ancestors_to_body gi a ps \<Longrightarrow>
   ancestor_loop gi (Some a) acc =
     Some (Inr (rev (filter (\<lambda>name. name \<noteq> ''script'' \<and> name \<noteq> ''style'') (map (get_tag_name gi) ps)) @ acc))"
proof (induction ps arbitrary: a acc)
  case Nil
  then show ?case by (subst ancestor_loop.simps) (simp add: is_body_def)
next
  case (Cons p ps)
  from Cons.prems have nb: "\<not> is_body gi a" and par: "parent (node gi a) = Some p"
    and rest: "ancestors_to_body gi p ps" by simp_all
  show ?case
    by (subst ancestor_loop.simps) (use nb par in \<open>auto simp: is_body_def Cons.IH[OF rest]\<close>)
qed

lemma nth_ancestor_chain:
  "nth_ancestor gi n a = Some b \<Longrightarrow> is_body gi b \<Longrightarrow> \<exists>ps. ancestors_to_body gi a ps"
proof (induction n arbitrary: a)
  case 0
  then have "ancestors_to_body gi a []" by simp
  then show ?case by blast
next
  case (Suc n)
  show ?case
  proof (cases "is_body gi a")
    case True
    then have "ancestors_to_body gi a []" by simp
    then show ?thesis by blast
  next
    case False
    from Suc.prems(1) obtain p where par: "parent (node gi a) = Some p"
      and up: "nth_ancestor gi n p = Some b"
      by (auto split: option.splits)
    from Suc.IH[OF up Suc.prems(2)] obtain ps where "ancestors_to_body gi p ps" by blast
    with False par have "ancestors_to_body gi a (p # ps)" by simp
    then show ?thesis by blast
  qed
qed

lemma ancestor_loop_error:
  assumes "ancestor_loop gi anode acc = Some r"
  shows "r \<noteq> Inl IndexOutOfRange"
  using assms
proof (induct rule: ancestor_loop.raw_induct[rotated 1, consumes 1, case_names step])
  case (step f gi anode acc r)
  then show ?case by (auto split: option.splits if_splits)
qed

lemma ancestor_loop_same_imp:
  assumes "ancestor_loop gi anode acc = Some r"
  shows "same_but_children gi gi' \<Longrightarrow> ancestor_loop gi' anode acc = Some r"
  using assms
proof (induct arbitrary: gi' rule: ancestor_loop.raw_induct[rotated 1, consumes 1, case_names step])
  case (step f gi anode acc r)
  from "step.prems" have nt: "\<And>p. ntype (node gi' p) = ntype (node gi p)"
    and tg: "\<And>p. tag (node gi' p) = tag (node gi p)"
    and pa: "\<And>p. parent (node gi' p) = parent (node gi p)"
    and nm: "get_tag_name gi' = get_tag_name gi"
    by (simp_all add: same_but_children_def)
  show ?case
  proof (cases anode)
    case None
    with "step.hyps"(2) show ?thesis by (subst ancestor_loop.simps) simp
  next
    case (Some a)
    show ?thesis
    proof (cases "ntype (node gi a) = GUMBO_NODE_ELEMENT \<and> tag (node gi a) = GUMBO_TAG_BODY")
      case True
      with Some "step.hyps"(2) have "r = Inr acc" by auto
      with True Some show ?thesis by (subst ancestor_loop.simps) (auto simp: nt tg)
    next
      case False
      show ?thesis
      proof (cases "parent (node gi a)")
        case None
        with Some False "step.hyps"(2) have "r = Inl NullDereference" by auto
        with None Some False show ?thesis
          by (subst ancestor_loop.simps) (auto simp: nt tg pa)
      next
        case (Some p)
        with \<open>anode = Some a\<close> False "step.hyps"(2)
        have "f gi (Some p)
                (if get_tag_name gi p \<noteq> ''script'' \<and> get_tag_name gi p \<noteq> ''style''
                 then get_tag_name gi p # acc else acc) = Some r"
          by auto
        from "step.hyps"(1)[OF this "step.prems"] Some \<open>anode = Some a\<close> False show ?thesis
          by (subst ancestor_loop.simps) (auto simp: nt tg pa nm)
      qed
    qed
  qed
qed

lemma same_but_children_sym: "same_but_children gi gi' \<Longrightarrow> same_but_children gi' gi"
  by (simp add: same_but_children_def)

lemma ancestor_loop_same:
  assumes "same_but_children gi gi'"
  shows "ancestor_loop gi' anode acc = ancestor_loop gi anode acc"
proof (cases "ancestor_loop gi anode acc")
  case None
  show ?thesis
  proof (cases "ancestor_loop gi' anode acc")
    case None
    with \<open>ancestor_loop gi anode acc = None\<close> show ?thesis by simp
  next
    case (Some r)
    from ancestor_loop_same_imp[OF Some same_but_children_sym[OF assms]] None
    show ?thesis by simp
  qed
next
  case (Some r)
  from ancestor_loop_same_imp[OF Some assms] Some show ?thesis by simp
qed

text \<open>
  Off the path to body the walk does not return a path: on a chain of parents that ends
  without meeting body it reads the name of a null parent, and on a chain that runs in a
  circle it does not return at all.
\<close>

lemma ancestor_loop_cycle_aux:
  assumes "ancestor_loop gi anode acc = Some r"
  shows "gi = parent_cycle \<Longrightarrow> anode = Some 0 \<or> anode = Some 1 \<Longrightarrow> False"
  using assms
proof (induct rule: ancestor_loop.raw_induct[rotated 1, consumes 1, case_names step])
  case (step f gi anode acc r)
  from step.prems(2) show ?case
  proof
    assume a: "anode = Some 0"
    with step.hyps(2) step.prems(1) have "\<exists>acc'. f gi (Some 1) acc' = Some r"
      by (auto simp: parent_cycle_def interface_of_def element_def split: if_splits)
    then show False using step.hyps(1) step.prems(1) by blast
  next
    assume a: "anode = Some 1"
    with step.hyps(2) step.prems(1) have "\<exists>acc'. f gi (Some 0) acc' = Some r"
      by (auto simp: parent_cycle_def interface_of_def element_def split: if_splits)
    then show False using step.hyps(1) step.prems(1) by blast
  qed
qed

lemma ancestor_loop_cycle: "ancestor_loop parent_cycle (Some 0) acc = None"
proof (cases "ancestor_loop parent_cycle (Some 0) acc")
  case None
  then show ?thesis .
next
  case (Some r)
  from ancestor_loop_cycle_aux[OF Some] show ?thesis by simp
qed

lemma ancestor_loop_no_body:
  "ancestor_loop (page [4] [] full_size) (Some 2) acc = Some (Inl NullDereference)"
  by (simp add: fixture_defs ancestor_loop.simps)

section \<open>The detector as a whole\<close>

lemma length_one: "length xs = 1 \<Longrightarrow> \<exists>x. xs = [x]"
  by (cases xs) auto

lemma detector_wrong_counts:
  assumes "parse text = gi"
    and "length (get_all_nodes_with_tag gi GUMBO_TAG_IMAGE) \<noteq> 1
         \<or> length (get_all_nodes_with_tag gi GUMBO_TAG_SVG) \<noteq> 1
         \<or> length (get_all_nodes_with_tag gi GUMBO_TAG_BODY) \<noteq> 1"
  shows "fixup_fullscreen_svg_images parse text = Some (Inr False)"
  using assms by (auto simp: fixup_fullscreen_svg_images_def Let_def)

lemma detector_on_counts:
  assumes "parse text = gi"
    and "get_all_nodes_with_tag gi GUMBO_TAG_IMAGE = [image_node]"
    and "get_all_nodes_with_tag gi GUMBO_TAG_SVG = [svg_node]"
    and "get_all_nodes_with_tag gi GUMBO_TAG_BODY = [body_node]"
  shows "fixup_fullscreen_svg_images parse text =
     (if \<exists>c. significant_children gi (children (node gi body_node)) = [c]
              \<and> get_tag_name gi c \<in> set allowed_tags
      then (case ancestor_loop gi (Some image_node) [get_tag_name gi image_node] of
              None \<Rightarrow> None
            | Some (Inl e) \<Rightarrow> Some (Inl e)
            | Some (Inr path_pieces) \<Rightarrow>
                Some (Inr ((join path_pieces '','' = ''body,div,svg,image''
                            \<or> join path_pieces '','' = ''body,svg,image'')
                           \<and> hash_value (get_attributes_of_node gi svg_node) ''width'' '''' = ''100%''
                           \<and> hash_value (get_attributes_of_node gi svg_node) ''height'' '''' = ''100%'')))
      else Some (Inr False))"
  using assms
  by (auto simp: fixup_fullscreen_svg_images_def Let_def child_check_scan child_check_full_scan
           split: option.splits sum.splits bool.splits)

lemma detector_on_chain:
  assumes "parse text = gi"
    and "get_all_nodes_with_tag gi GUMBO_TAG_IMAGE = [image_node]"
    and "get_all_nodes_with_tag gi GUMBO_TAG_SVG = [svg_node]"
    and "get_all_nodes_with_tag gi GUMBO_TAG_BODY = [body_node]"
    and "ancestors_to_body gi image_node ps"
  shows "fixup_fullscreen_svg_images parse text =
     Some (Inr ((\<exists>c. significant_children gi (children (node gi body_node)) = [c]
                     \<and> get_tag_name gi c \<in> set allowed_tags)
                \<and> (join (ancestor_names gi image_node ps) '','' = ''body,div,svg,image''
                    \<or> join (ancestor_names gi image_node ps) '','' = ''body,svg,image'')
                \<and> hash_value (get_attributes_of_node gi svg_node) ''width'' '''' = ''100%''
                \<and> hash_value (get_attributes_of_node gi svg_node) ''height'' '''' = ''100%''))"
  unfolding detector_on_counts[of parse "text" gi, OF assms(1-4)] ancestor_loop_chain[OF assms(5)]
    ancestor_names_def
  by simp

lemma detector_in_bounds: "fixup_fullscreen_svg_images parse text \<noteq> Some (Inl IndexOutOfRange)"
proof -
  obtain names k where sc: "scan_children (parse text)
      (children (node (parse text) (get_all_nodes_with_tag (parse text) GUMBO_TAG_BODY ! 0))) ([], 0) = (names, k)"
    by (cases "scan_children (parse text)
      (children (node (parse text) (get_all_nodes_with_tag (parse text) GUMBO_TAG_BODY ! 0))) ([], 0)")
  from scan_children_invariant[OF _ sc] have "int (length names) = k" by simp
  from child_check_in_bounds[OF this] have cc: "child_check (names, k) \<noteq> Inl IndexOutOfRange" .
  show ?thesis
    using cc ancestor_loop_error[of "parse text"]
    by (auto simp: fixup_fullscreen_svg_images_def Let_def sc split: sum.splits bool.splits option.splits)
qed

lemma detector_many_children:
  assumes "parse text = gi"
    and "get_all_nodes_with_tag gi GUMBO_TAG_BODY = [body_node]"
    and "1 < length (significant_children gi (children (node gi body_node)))"
  shows "fixup_fullscreen_svg_images parse text = Some (Inr False)"
proof (cases "length (get_all_nodes_with_tag gi GUMBO_TAG_IMAGE) = 1
              \<and> length (get_all_nodes_with_tag gi GUMBO_TAG_SVG) = 1")
  case False
  then show ?thesis
    using detector_wrong_counts[of parse "text" gi, OF assms(1)] by blast
next
  case True
  then obtain image_node svg_node where
    "get_all_nodes_with_tag gi GUMBO_TAG_IMAGE = [image_node]"
    "get_all_nodes_with_tag gi GUMBO_TAG_SVG = [svg_node]"
    using length_one by blast
  from detector_on_counts[of parse "text" gi, OF assms(1) this assms(2)] assms(3)
  show ?thesis by auto
qed

lemma detector_same:
  assumes "parse text = gi" and "parse' text' = gi'"
    and "same_but_children gi gi'"
    and "scan_children gi (children (node gi' (get_all_nodes_with_tag gi GUMBO_TAG_BODY ! 0))) ([], 0)
         = scan_children gi (children (node gi (get_all_nodes_with_tag gi GUMBO_TAG_BODY ! 0))) ([], 0)"
  shows "fixup_fullscreen_svg_images parse' text' = fixup_fullscreen_svg_images parse text"
proof -
  from assms(3) have eqs: "get_all_nodes_with_tag gi' = get_all_nodes_with_tag gi"
    "get_tag_name gi' = get_tag_name gi"
    "get_attributes_of_node gi' = get_attributes_of_node gi"
    by (simp_all add: same_but_children_def)
  show ?thesis
    unfolding fixup_fullscreen_svg_images_def assms(1,2) Let_def eqs
      scan_children_same[OF assms(3)] ancestor_loop_same[OF assms(3)] assms(4)
    by (rule refl)
qed

section \<open>The search patterns\<close>







lemmas exact_Many_def = exact.simps(3)

declare exact.simps(2,3) [simp del]

lemma exact_Many:
  "exact (Many c # ps) w pos cap r \<longleftrightarrow>
     (\<exists>u v. w = u @ v \<and> list_all (cc_match c) u \<and> exact ps v (pos + length u) cap r)"
proof
  assume "exact (Many c # ps) w pos cap r"
  then obtain k where k: "k \<le> length w" "list_all (cc_match c) (take k w)"
    "exact ps (drop k w) (pos + k) cap r" unfolding exact_Many_def by auto
  then have "w = take k w @ drop k w \<and> list_all (cc_match c) (take k w)
      \<and> exact ps (drop k w) (pos + length (take k w)) cap r" by (simp add: min_absorb2)
  then show "\<exists>u v. w = u @ v \<and> list_all (cc_match c) u \<and> exact ps v (pos + length u) cap r"
    by blast
next
  assume "\<exists>u v. w = u @ v \<and> list_all (cc_match c) u \<and> exact ps v (pos + length u) cap r"
  then obtain u v where "w = u @ v" "list_all (cc_match c) u" "exact ps v (pos + length u) cap r"
    by blast
  then have "length u \<le> length w \<and> list_all (cc_match c) (take (length u) w)
      \<and> exact ps (drop (length u) w) (pos + length u) cap r" by simp
  then show "exact (Many c # ps) w pos cap r" unfolding exact_Many_def by blast
qed


















lemma span_unique:
  assumes "list_all P u" "list_all P u'" "\<not> P x" "\<not> P x'" "u @ x # r = u' @ x' # r'"
  shows "u = u' \<and> x # r = x' # r'"
proof -
  from assms(1,3) have "takeWhile P (u @ x # r) = u"
    by (simp add: takeWhile_append2 list_all_iff)
  moreover from assms(2,4) have "takeWhile P (u' @ x' # r') = u'"
    by (simp add: takeWhile_append2 list_all_iff)
  ultimately have "u = u'" using assms(5) by simp
  with assms(5) show ?thesis by simp
qed

lemma letter_s_not_space: "same_letter 0x73 u \<Longrightarrow> \<not> is_space u"
  by (auto simp: same_letter_def is_space_def)

lemma open_shape_length:
  assumes "open_shape a" "open_shape b" "a @ ra = b @ rb"
  shows "a = b"
proof -
  from assms(1) obtain w1 name sp where a: "a = 0x3C # w1 @ name @ [sp]"
    "list_all is_space w1" "list_all2 same_letter (latin1 ''svg'') name"
    unfolding open_shape_def by blast
  from assms(2) obtain w1' name' sp' where b: "b = 0x3C # w1' @ name' @ [sp']"
    "list_all is_space w1'" "list_all2 same_letter (latin1 ''svg'') name'"
    unfolding open_shape_def by blast
  from a(3) obtain n ns where n: "name = n # ns" "same_letter 0x73 n" "length ns = 2"
    by (auto simp: latin1_def list_all2_Cons1)
  from b(3) obtain n' ns' where n': "name' = n' # ns'" "same_letter 0x73 n'" "length ns' = 2"
    by (auto simp: latin1_def list_all2_Cons1)
  from assms(3) a b n n' have "w1 @ n # (ns @ sp # ra) = w1' @ n' # (ns' @ sp' # rb)" by simp
  from span_unique[OF a(2) b(2) letter_s_not_space[OF n(2)] letter_s_not_space[OF n'(2)] this]
  have "w1 = w1'" by simp
  with a b n n' have "length a = length b" by simp
  with assms(3) show ?thesis by (metis append_eq_append_conv)
qed

lemma value_shape_length:
  assumes "value_shape attr v c" "value_shape attr v' c'" "v @ r = v' @ r'"
  shows "c = c'"
proof -
  from assms(1) obtain aname w2 w3 q1 tl1 where v:
    "v = aname @ w2 @ 0x3D # w3 @ q1 # tl1"
    "list_all2 same_letter (latin1 attr) aname" "list_all is_space w2" "list_all is_space w3"
    "is_quote q1" "c = length aname + length w2 + 1 + length w3 + 1"
    unfolding value_shape_def by blast
  from assms(2) obtain aname' w2' w3' q1' tl1' where v':
    "v' = aname' @ w2' @ 0x3D # w3' @ q1' # tl1'"
    "list_all2 same_letter (latin1 attr) aname'" "list_all is_space w2'" "list_all is_space w3'"
    "is_quote q1'" "c' = length aname' + length w2' + 1 + length w3' + 1"
    unfolding value_shape_def by blast
  have eq: "\<not> is_space 0x3D" by (simp add: is_space_def)
  have q: "\<And>u. is_quote u \<Longrightarrow> \<not> is_space u" by (auto simp: is_space_def is_quote_def)
  from v(2) v'(2) have len: "length aname = length aname'"
    by (simp add: list_all2_lengthD[symmetric])
  from assms(3) v(1) v'(1) have "aname @ (w2 @ 0x3D # w3 @ q1 # tl1 @ r)
      = aname' @ (w2' @ 0x3D # w3' @ q1' # tl1' @ r')" by simp
  with len have "w2 @ 0x3D # (w3 @ q1 # tl1 @ r) = w2' @ 0x3D # (w3' @ q1' # tl1' @ r')"
    by simp
  from span_unique[OF v(3) v'(3) eq eq this] have w2: "w2 = w2'"
    and "w3 @ q1 # (tl1 @ r) = w3' @ q1' # (tl1' @ r')" by simp_all
  from span_unique[OF v(4) v'(4) q[OF v(5)] q[OF v'(5)] this(2)] have "w3 = w3'" by simp
  with w2 len v(6) v'(6) show ?thesis by simp
qed











text \<open>The value is determined by the tag and the attribute, so the step is a function.\<close>

lemma svg_attr_at_value:
  assumes "svg_attr_at attr t i a bp" "svg_attr_at attr t i a bp'"
  shows "bp = bp'"
proof -
  from assms(1) obtain stag junk val c rest where 1:
    "drop i t = (stag @ junk @ val) @ rest" "open_shape stag" "value_shape attr val c"
    "a = i + (length stag + length junk)" "bp = i + (length stag + length junk + c)"
    unfolding svg_attr_at_def tag_shape_def by blast
  from assms(2) obtain stag' junk' val' c' rest' where 2:
    "drop i t = (stag' @ junk' @ val') @ rest'" "open_shape stag'"
    "value_shape attr val' c'"
    "a = i + (length stag' + length junk')" "bp' = i + (length stag' + length junk' + c')"
    unfolding svg_attr_at_def tag_shape_def by blast
  from 1(1) 2(1) have e: "stag @ (junk @ val @ rest) = stag' @ (junk' @ val' @ rest')"
    by simp
  from open_shape_length[OF 1(2) 2(2) e] have o: "stag = stag'" .
  with 1(4) 2(4) have lj: "length junk = length junk'" by simp
  with e o have "val @ rest = val' @ rest'" by simp
  from value_shape_length[OF 1(3) 2(3) this] o lj 1(5) 2(5) show ?thesis by simp
qed

lemma one_substitution_functional:
  assumes "one_substitution attr after t t1" "one_substitution attr after t t2"
  shows "t1 = t2"
proof (cases "utf16_valid t \<and> (\<exists>i a bp. svg_attr_at attr t i a bp)")
  case False
  with assms show ?thesis unfolding one_substitution_def by simp
next
  case True
  with assms(1) obtain i a bp where 1: "svg_attr_at attr t i a bp"
    "\<forall>j a' bp'. svg_attr_at attr t j a' bp' \<longrightarrow> i \<le> j \<and> (j = i \<longrightarrow> a' \<le> a)"
    "t1 = take bp t @ after @ drop (bp + 4) t"
    unfolding one_substitution_def by auto
  from True assms(2) obtain i' a' bp' where 2: "svg_attr_at attr t i' a' bp'"
    "\<forall>j a'' bp''. svg_attr_at attr t j a'' bp'' \<longrightarrow> i' \<le> j \<and> (j = i' \<longrightarrow> a'' \<le> a')"
    "t2 = take bp' t @ after @ drop (bp' + 4) t"
    unfolding one_substitution_def by auto
  from 1(1,2) 2(1,2) have i: "i = i'" by (meson le_antisym)
  with 1(1,2) 2(1,2) have "a = a'" by (meson le_antisym)
  with i 1(1) 2(1) svg_attr_at_value have "bp = bp'" by blast
  with 1(3) 2(3) show ?thesis by simp
qed

text \<open>
  A tag written with the long s is found as well, a text with a surrogate on its own
  is left alone, and of two such attributes in one tag the second has its value replaced.
\<close>

lemma long_s_is_rewritten:
  "substitute svg_height (latin1 ''100vh'') long_s_text = long_s_rewritten"
  by (simp add: rx_defs long_s_text_def long_s_rewritten_def)

lemma ill_formed_is_kept:
  "substitute svg_height (latin1 ''100vh'') (quoted_text @ [0xD800]) = quoted_text @ [0xD800]"
  by (simp add: rx_defs quoted_text_def)

lemma last_attribute_is_rewritten:
  "substitute svg_height (latin1 ''100vh'') twice_text = twice_rewritten"
  by (simp add: rx_defs twice_text_def twice_rewritten_def)

section \<open>The claims\<close>

text \<open>
  C1. A document with exactly one \<open>image\<close>, one \<open>svg\<close> and one \<open>body\<close> node, whose body has
  exactly one significant child, tagged \<open>div\<close> or \<open>svg\<close>, whose path from the image up to
  body reads \<open>body,div,svg,image\<close> or \<open>body,svg,image\<close>, and whose svg node has the
  attributes \<open>width\<close> and \<open>height\<close> both equal to \<open>100%\<close>, is accepted: the detector returns
  true. The significant children are those of the scan without early exit; the path is
  the chain of parents of the image with the \<open>script\<close> and \<open>style\<close> ancestors left out.
\<close>

theorem fullscreen_svg_detected:
  assumes "parse text = gi"
    and "get_all_nodes_with_tag gi GUMBO_TAG_IMAGE = [image_node]"
    and "get_all_nodes_with_tag gi GUMBO_TAG_SVG = [svg_node]"
    and "get_all_nodes_with_tag gi GUMBO_TAG_BODY = [body_node]"
    and "significant_children gi (children (node gi body_node)) = [child]"
    and "get_tag_name gi child = ''div'' \<or> get_tag_name gi child = ''svg''"
    and "ancestors_to_body gi image_node ps"
    and "join (ancestor_names gi image_node ps) '','' = ''body,div,svg,image''
         \<or> join (ancestor_names gi image_node ps) '','' = ''body,svg,image''"
    and "get_attributes_of_node gi svg_node ''width'' = Some ''100%''"
    and "get_attributes_of_node gi svg_node ''height'' = Some ''100%''"
  shows "fixup_fullscreen_svg_images parse text = Some (Inr True)"
  unfolding detector_on_chain[of parse "text" gi, OF assms(1-4) assms(7)]
  using assms(5,6,8,9,10) by (auto simp: allowed_tags_def hash_value_def)

theorem fullscreen_svg_detected_witness:
  "get_all_nodes_with_tag (page [4] [] full_size) GUMBO_TAG_IMAGE = [6]
   \<and> get_all_nodes_with_tag (page [4] [] full_size) GUMBO_TAG_SVG = [5]
   \<and> get_all_nodes_with_tag (page [4] [] full_size) GUMBO_TAG_BODY = [3]
   \<and> significant_children (page [4] [] full_size) (children (node (page [4] [] full_size) 3)) = [4]
   \<and> get_tag_name (page [4] [] full_size) 4 = ''div''
   \<and> ancestors_to_body (page [4] [] full_size) 6 [5, 4, 3]
   \<and> join (ancestor_names (page [4] [] full_size) 6 [5, 4, 3]) '','' = ''body,div,svg,image''
   \<and> get_attributes_of_node (page [4] [] full_size) 5 ''width'' = Some ''100%''
   \<and> get_attributes_of_node (page [4] [] full_size) 5 ''height'' = Some ''100%''
   \<and> fixup_fullscreen_svg_images (\<lambda>_. page [4] [] full_size) quoted_text = Some (Inr True)"
proof -
  let ?gi = "page [4] [] full_size"
  have h2: "get_all_nodes_with_tag ?gi GUMBO_TAG_IMAGE = [6]" by (simp add: fixture_defs)
  have h3: "get_all_nodes_with_tag ?gi GUMBO_TAG_SVG = [5]" by (simp add: fixture_defs)
  have h4: "get_all_nodes_with_tag ?gi GUMBO_TAG_BODY = [3]" by (simp add: fixture_defs)
  have h5: "significant_children ?gi (children (node ?gi 3)) = [4]"
    by (simp add: fixture_defs spec_defs)
  have h6: "get_tag_name ?gi 4 = ''div''" by (simp add: fixture_defs)
  have h7: "ancestors_to_body ?gi 6 [5, 4, 3]" by (simp add: fixture_defs is_body_def)
  have h8: "join (ancestor_names ?gi 6 [5, 4, 3]) '','' = ''body,div,svg,image''"
    by (simp add: fixture_defs spec_defs)
  have h9: "get_attributes_of_node ?gi 5 ''width'' = Some ''100%''" by (simp add: fixture_defs)
  have h10: "get_attributes_of_node ?gi 5 ''height'' = Some ''100%''" by (simp add: fixture_defs)
  from fullscreen_svg_detected[of "\<lambda>_. ?gi" quoted_text ?gi 6 5 3 4 "[5, 4, 3]",
      OF refl h2 h3 h4 h5 disjI1[OF h6] h7 disjI1[OF h8] h9 h10]
  show ?thesis using h2 h3 h4 h5 h6 h7 h8 h9 h10 by simp
qed

text \<open>
  C2. A document whose tree does not hold exactly one \<open>image\<close> node, exactly one \<open>svg\<close>
  node and exactly one \<open>body\<close> node is rejected: the detector returns false. A document
  with two images is an instance.
\<close>

theorem wrong_counts_rejected:
  assumes "parse text = gi"
    and "length (get_all_nodes_with_tag gi GUMBO_TAG_IMAGE) \<noteq> 1
         \<or> length (get_all_nodes_with_tag gi GUMBO_TAG_SVG) \<noteq> 1
         \<or> length (get_all_nodes_with_tag gi GUMBO_TAG_BODY) \<noteq> 1"
  shows "fixup_fullscreen_svg_images parse text = Some (Inr False)"
  using assms by (rule detector_wrong_counts)

theorem wrong_counts_rejected_witness:
  "length (get_all_nodes_with_tag two_images GUMBO_TAG_IMAGE) = 2
   \<and> fixup_fullscreen_svg_images (\<lambda>_. two_images) two_images_text = Some (Inr False)"
proof -
  have n: "length (get_all_nodes_with_tag two_images GUMBO_TAG_IMAGE) = 2"
    by (simp add: fixture_defs)
  then have "length (get_all_nodes_with_tag two_images GUMBO_TAG_IMAGE) \<noteq> 1
         \<or> length (get_all_nodes_with_tag two_images GUMBO_TAG_SVG) \<noteq> 1
         \<or> length (get_all_nodes_with_tag two_images GUMBO_TAG_BODY) \<noteq> 1"
    by simp
  from wrong_counts_rejected[of "\<lambda>_. two_images" two_images_text two_images, OF refl this] n
  show ?thesis by simp
qed

text \<open>
  C3, as stated, does not hold when the ancestor path is read with every ancestor in it
  (or with the filter as step 7 of the specification words it): with the image inside a
  \<open>style\<close> element of the svg that path is \<open>body,svg,style,image\<close>, neither of the two
  accepted paths, and the detector returns true.
\<close>

theorem unfiltered_path_counterexample:
  "ancestors_to_body image_in_style 6 [5, 4, 3]
   \<and> join (literal_ancestor_names image_in_style 6 [5, 4, 3]) '','' = ''body,svg,style,image''
   \<and> join (spec_ancestor_names image_in_style 6 [5, 4, 3]) '','' = ''body,svg,style,image''
   \<and> fixup_fullscreen_svg_images (\<lambda>_. image_in_style) image_in_style_text = Some (Inr True)"
  by (simp add: fixture_defs detector_defs ancestor_loop.simps Let_def literal_ancestor_names_def
        spec_ancestor_names_def parent_is_script_or_style_def)

text \<open>
  C3, amended. Let the path of the image be the names of its ancestors up to and
  including body, outermost first, without those tagged \<open>script\<close> or \<open>style\<close>, followed by
  the name of the image. The detector returns true only if the comma-joined path is
  exactly \<open>body,div,svg,image\<close> or \<open>body,svg,image\<close>; with any other path, such as
  \<open>body,div,div,svg,image\<close>, it returns false. This holds whether or not the earlier
  checks pass, since a failed earlier check returns false as well.
\<close>

theorem other_paths_rejected:
  assumes "parse text = gi"
    and "get_all_nodes_with_tag gi GUMBO_TAG_IMAGE = [image_node]"
    and "ancestors_to_body gi image_node ps"
    and "apath = join (ancestor_names gi image_node ps) '',''"
  shows "(fixup_fullscreen_svg_images parse text = Some (Inr True)
            \<longrightarrow> apath = ''body,div,svg,image'' \<or> apath = ''body,svg,image'')
         \<and> (apath \<noteq> ''body,div,svg,image'' \<and> apath \<noteq> ''body,svg,image''
            \<longrightarrow> fixup_fullscreen_svg_images parse text = Some (Inr False))"
proof (cases "length (get_all_nodes_with_tag gi GUMBO_TAG_SVG) = 1
              \<and> length (get_all_nodes_with_tag gi GUMBO_TAG_BODY) = 1")
  case False
  then have "fixup_fullscreen_svg_images parse text = Some (Inr False)"
    using detector_wrong_counts[of parse "text" gi, OF assms(1)] by blast
  then show ?thesis by simp
next
  case True
  then obtain svg_node body_node where
    "get_all_nodes_with_tag gi GUMBO_TAG_SVG = [svg_node]"
    "get_all_nodes_with_tag gi GUMBO_TAG_BODY = [body_node]"
    using length_one by blast
  from detector_on_chain[of parse "text" gi, OF assms(1,2) this assms(3)] assms(4)
  show ?thesis by auto
qed

theorem other_paths_rejected_witness:
  "get_all_nodes_with_tag nested_divs GUMBO_TAG_IMAGE = [7]
   \<and> ancestors_to_body nested_divs 7 [6, 5, 4, 3]
   \<and> join (ancestor_names nested_divs 7 [6, 5, 4, 3]) '','' = ''body,div,div,svg,image''
   \<and> fixup_fullscreen_svg_images (\<lambda>_. nested_divs) nested_divs_text = Some (Inr False)"
proof -
  have h2: "get_all_nodes_with_tag nested_divs GUMBO_TAG_IMAGE = [7]" by (simp add: fixture_defs)
  have h3: "ancestors_to_body nested_divs 7 [6, 5, 4, 3]" by (simp add: fixture_defs is_body_def)
  have h4: "join (ancestor_names nested_divs 7 [6, 5, 4, 3]) '','' = ''body,div,div,svg,image''"
    by (simp add: fixture_defs spec_defs)
  from other_paths_rejected[of "\<lambda>_. nested_divs" nested_divs_text nested_divs 7 "[6, 5, 4, 3]"
      "''body,div,div,svg,image''", OF refl h2 h3 h4[symmetric]]
  show ?thesis using h2 h3 h4 by simp
qed

text \<open>
  C4, as the specification words it, does not hold: with the image inside a \<open>style\<close>
  element of the svg, the loop leaves out the name of the \<open>style\<close> element itself and keeps
  every other name, where the wording would keep \<open>style\<close> (its parent is the svg element).
\<close>

theorem path_filter_counterexample:
  "ancestors_to_body image_in_style 6 [5, 4, 3]
   \<and> ancestor_loop image_in_style (Some 6) [get_tag_name image_in_style 6]
       = Some (Inr [''body'', ''svg'', ''image''])
   \<and> spec_ancestor_names image_in_style 6 [5, 4, 3] = [''body'', ''svg'', ''style'', ''image'']
   \<and> ancestor_loop image_in_style (Some 6) [get_tag_name image_in_style 6]
       \<noteq> Some (Inr (spec_ancestor_names image_in_style 6 [5, 4, 3]))"
  by (simp add: fixture_defs is_body_def ancestor_loop.simps spec_ancestor_names_def
        parent_is_script_or_style_def)

text \<open>
  C4, amended. The path the loop builds is the name of the image node preceded by the
  names of its ancestors up to and including body, outermost first, where an ancestor is
  left out exactly when it is itself tagged \<open>script\<close> or \<open>style\<close>.
\<close>

theorem path_leaves_out_script_and_style:
  assumes "ancestors_to_body gi image_node ps"
  shows "ancestor_loop gi (Some image_node) [get_tag_name gi image_node]
           = Some (Inr (rev (filter (\<lambda>name. name \<noteq> ''script'' \<and> name \<noteq> ''style'')
                                    (map (get_tag_name gi) ps))
                        @ [get_tag_name gi image_node]))"
  using ancestor_loop_chain[OF assms] .

theorem path_leaves_out_script_and_style_witness:
  "ancestors_to_body image_in_style 6 [5, 4, 3]
   \<and> map (get_tag_name image_in_style) [5, 4, 3] = [''style'', ''svg'', ''body'']
   \<and> ancestor_loop image_in_style (Some 6) [get_tag_name image_in_style 6]
       = Some (Inr [''body'', ''svg'', ''image''])"
proof -
  have h: "ancestors_to_body image_in_style 6 [5, 4, 3]" by (simp add: fixture_defs is_body_def)
  have n: "map (get_tag_name image_in_style) [5, 4, 3] = [''style'', ''svg'', ''body'']"
    by (simp add: fixture_defs)
  have i: "get_tag_name image_in_style 6 = ''image''" by (simp add: fixture_defs)
  from path_leaves_out_script_and_style[OF h] h n show ?thesis
    unfolding n i by simp
qed

text \<open>
  C5, as stated, does not hold for a heading whose flattened text is white space only:
  the test of line 624 is \<open>contents.isEmpty()\<close>. A heading that holds a no-break space has a
  flattened text of one character; it is counted, and the page that is accepted without
  the heading is rejected with it.
\<close>

theorem whitespace_heading_counterexample:
  "get_tag_name (page [7, 4] [CHR 0xA0] full_size) 7 = ''h1''
   \<and> get_local_text_of_node (page [7, 4] [CHR 0xA0] full_size) 7 = [CHR 0xA0]
   \<and> fixup_fullscreen_svg_images (\<lambda>_. page [7, 4] [CHR 0xA0] full_size) nbsp_heading_text
       = Some (Inr False)
   \<and> fixup_fullscreen_svg_images (\<lambda>_. page [4] [CHR 0xA0] full_size) quoted_text
       = Some (Inr True)"
  by (simp add: fixture_defs detector_defs ancestor_loop.simps Let_def)

text \<open>
  C5, amended. A heading child of body (\<open>h1\<close> to \<open>h6\<close>) whose flattened text is the empty
  string is ignored: the detector answers as it does on the document without that child.
  A heading child whose flattened text is not empty, white space included, counts as a
  significant child, and together with a \<open>div\<close> or \<open>svg\<close> child it makes the detector
  return false.
\<close>

theorem heading_children:
  assumes "parse text = gi"
    and "get_all_nodes_with_tag gi GUMBO_TAG_BODY = [body_node]"
    and "children (node gi body_node) = before @ h # after"
    and "ntype (node gi h) = GUMBO_NODE_ELEMENT"
    and "get_tag_name gi h \<in> set HEADERTAGS"
  shows "(get_local_text_of_node gi h = [] \<and> parse' text' = gi' \<and> same_but_children gi gi'
            \<and> children (node gi' body_node) = before @ after
          \<longrightarrow> fixup_fullscreen_svg_images parse' text' = fixup_fullscreen_svg_images parse text)
         \<and> (get_local_text_of_node gi h \<noteq> [] \<and> c \<in> set (before @ after)
            \<and> ntype (node gi c) = GUMBO_NODE_ELEMENT
            \<and> (get_tag_name gi c = ''div'' \<or> get_tag_name gi c = ''svg'')
          \<longrightarrow> fixup_fullscreen_svg_images parse text = Some (Inr False))"
proof (intro conjI impI)
  assume a: "get_local_text_of_node gi h = [] \<and> parse' text' = gi' \<and> same_but_children gi gi'
            \<and> children (node gi' body_node) = before @ after"
  have "scan_children gi (before @ after) ([], 0) = scan_children gi (before @ h # after) ([], 0)"
    using a assms(5) by (simp add: scan_children_full heading_skipped)
  then show "fixup_fullscreen_svg_images parse' text' = fixup_fullscreen_svg_images parse text"
    using detector_same[of parse "text" gi parse' text' gi'] a assms(1-3) by simp
next
  assume b: "get_local_text_of_node gi h \<noteq> [] \<and> c \<in> set (before @ after)
            \<and> ntype (node gi c) = GUMBO_NODE_ELEMENT
            \<and> (get_tag_name gi c = ''div'' \<or> get_tag_name gi c = ''svg'')"
  then have "1 < length (significant_children gi (before @ h # after))"
    using heading_counted[OF assms(4,5)] by blast
  then show "fixup_fullscreen_svg_images parse text = Some (Inr False)"
    using detector_many_children[of parse "text" gi, OF assms(1,2)] assms(3) by simp
qed

theorem heading_children_witness:
  "get_local_text_of_node (page [7, 4] [] full_size) 7 = []
   \<and> same_but_children (page [7, 4] [] full_size) (page [4] [] full_size)
   \<and> fixup_fullscreen_svg_images (\<lambda>_. page [4] [] full_size) quoted_text
       = fixup_fullscreen_svg_images (\<lambda>_. page [7, 4] [] full_size) empty_heading_text
   \<and> get_local_text_of_node (page [7, 4] ''Title'' full_size) 7 = ''Title''
   \<and> fixup_fullscreen_svg_images (\<lambda>_. page [7, 4] ''Title'' full_size) title_heading_text
       = Some (Inr False)"
proof -
  have b: "get_all_nodes_with_tag (page [7, 4] t full_size) GUMBO_TAG_BODY = [3]" for t
    by (simp add: fixture_defs)
  have c: "children (node (page [7, 4] t full_size) 3) = [] @ 7 # [4]" for t
    by (simp add: fixture_defs)
  have e: "ntype (node (page [7, 4] t full_size) 7) = GUMBO_NODE_ELEMENT" for t
    by (simp add: fixture_defs)
  have n: "get_tag_name (page [7, 4] t full_size) 7 \<in> set HEADERTAGS" for t
    by (simp add: fixture_defs HEADERTAGS_def)
  have t: "get_local_text_of_node (page [7, 4] t full_size) 7 = t" for t
    by (simp add: fixture_defs)
  have s1: "get_all_nodes_with_tag (page [4] [] full_size)
      = get_all_nodes_with_tag (page [7, 4] [] full_size)"
  proof
    fix tg
    show "get_all_nodes_with_tag (page [4] [] full_size) tg
        = get_all_nodes_with_tag (page [7, 4] [] full_size) tg"
      by (cases tg) (simp_all add: fixture_defs)
  qed
  have s2: "ntype (node (page [4] [] full_size) p) = ntype (node (page [7, 4] [] full_size) p)
      \<and> tag (node (page [4] [] full_size) p) = tag (node (page [7, 4] [] full_size) p)
      \<and> parent (node (page [4] [] full_size) p) = parent (node (page [7, 4] [] full_size) p)" for p
    by (simp add: fixture_defs)
  have s: "same_but_children (page [7, 4] [] full_size) (page [4] [] full_size)"
    unfolding same_but_children_def
    using s1 s2 by (simp add: page_def interface_of_def)
  have c': "children (node (page [4] [] full_size) 3) = [] @ [4]" by (simp add: fixture_defs)
  have d: "4 \<in> set ([] @ [4]) \<and> ntype (node (page [7, 4] ''Title'' full_size) 4) = GUMBO_NODE_ELEMENT
      \<and> (get_tag_name (page [7, 4] ''Title'' full_size) 4 = ''div''
          \<or> get_tag_name (page [7, 4] ''Title'' full_size) 4 = ''svg'')"
    by (simp add: fixture_defs)
  have r1: "fixup_fullscreen_svg_images (\<lambda>_. page [4] [] full_size) quoted_text
       = fixup_fullscreen_svg_images (\<lambda>_. page [7, 4] [] full_size) empty_heading_text"
    using heading_children[of "\<lambda>_. page [7, 4] [] full_size" empty_heading_text
        "page [7, 4] [] full_size" 3 "[]" 7 "[4]"
        "\<lambda>_. page [4] [] full_size" quoted_text "page [4] [] full_size" 4,
        OF refl b c e n, THEN conjunct1] t[of "[]"] s c'
    by simp
  have r2: "fixup_fullscreen_svg_images (\<lambda>_. page [7, 4] ''Title'' full_size) title_heading_text
       = Some (Inr False)"
    using heading_children[of "\<lambda>_. page [7, 4] ''Title'' full_size" title_heading_text
        "page [7, 4] ''Title'' full_size" 3 "[]" 7 "[4]"
        "\<lambda>_. page [4] [] full_size" quoted_text "page [4] [] full_size" 4,
        OF refl b c e n, THEN conjunct2] t[of "''Title''"] d
    by simp
  from r1 r2 t[of "[]"] t[of "''Title''"] s show ?thesis by simp
qed

text \<open>
  C6. For a document that passes all structural checks, the detector returns true exactly
  when the \<open>width\<close> and the \<open>height\<close> attribute of the svg node are both the string
  \<open>100%\<close>, an attribute that is missing read as the empty string. So a height of \<open>99%\<close>
  and a missing height both give false.
\<close>

theorem dimensions_decide:
  assumes "parse text = gi"
    and "get_all_nodes_with_tag gi GUMBO_TAG_IMAGE = [image_node]"
    and "get_all_nodes_with_tag gi GUMBO_TAG_SVG = [svg_node]"
    and "get_all_nodes_with_tag gi GUMBO_TAG_BODY = [body_node]"
    and "significant_children gi (children (node gi body_node)) = [child]"
    and "get_tag_name gi child = ''div'' \<or> get_tag_name gi child = ''svg''"
    and "ancestors_to_body gi image_node ps"
    and "join (ancestor_names gi image_node ps) '','' = ''body,div,svg,image''
         \<or> join (ancestor_names gi image_node ps) '','' = ''body,svg,image''"
    and "svgatts = get_attributes_of_node gi svg_node"
  shows "fixup_fullscreen_svg_images parse text =
           Some (Inr ((case svgatts ''width'' of None \<Rightarrow> [] | Some w \<Rightarrow> w) = ''100%''
                      \<and> (case svgatts ''height'' of None \<Rightarrow> [] | Some h \<Rightarrow> h) = ''100%''))"
  unfolding detector_on_chain[of parse "text" gi, OF assms(1-4) assms(7)]
  using assms(5,6,8,9) by (auto simp: allowed_tags_def hash_value_def)

theorem dimensions_decide_witness:
  "get_all_nodes_with_tag (page [4] [] [(''width'', ''100%''), (''height'', ''99%'')]) GUMBO_TAG_SVG = [5]
   \<and> get_attributes_of_node (page [4] [] [(''width'', ''100%''), (''height'', ''99%'')]) 5 ''height''
       = Some ''99%''
   \<and> fixup_fullscreen_svg_images (\<lambda>_. page [4] [] [(''width'', ''100%''), (''height'', ''99%'')])
         height_99_text = Some (Inr False)
   \<and> get_attributes_of_node (page [4] [] [(''width'', ''100%'')]) 5 ''height'' = None
   \<and> fixup_fullscreen_svg_images (\<lambda>_. page [4] [] [(''width'', ''100%'')]) no_height_text
       = Some (Inr False)
   \<and> fixup_fullscreen_svg_images (\<lambda>_. page [4] [] full_size) quoted_text = Some (Inr True)"
proof -
  have h2: "get_all_nodes_with_tag (page [4] [] atts) GUMBO_TAG_IMAGE = [6]" for atts
    by (simp add: fixture_defs)
  have h3: "get_all_nodes_with_tag (page [4] [] atts) GUMBO_TAG_SVG = [5]" for atts
    by (simp add: fixture_defs)
  have h4: "get_all_nodes_with_tag (page [4] [] atts) GUMBO_TAG_BODY = [3]" for atts
    by (simp add: fixture_defs)
  have h5: "significant_children (page [4] [] atts) (children (node (page [4] [] atts) 3)) = [4]"
    for atts by (simp add: fixture_defs spec_defs)
  have h6: "get_tag_name (page [4] [] atts) 4 = ''div'' \<or> get_tag_name (page [4] [] atts) 4 = ''svg''"
    for atts by (simp add: fixture_defs)
  have h7: "ancestors_to_body (page [4] [] atts) 6 [5, 4, 3]" for atts
    by (simp add: fixture_defs is_body_def)
  have h8: "join (ancestor_names (page [4] [] atts) 6 [5, 4, 3]) '','' = ''body,div,svg,image''
      \<or> join (ancestor_names (page [4] [] atts) 6 [5, 4, 3]) '','' = ''body,svg,image''" for atts
    by (simp add: fixture_defs spec_defs)
  have a: "get_attributes_of_node (page [4] [] atts) 5 = map_of atts" for atts
    by (simp add: fixture_defs)
  have w: "fixup_fullscreen_svg_images (\<lambda>_. page [4] [] atts) t =
           Some (Inr ((case map_of atts ''width'' of None \<Rightarrow> [] | Some w \<Rightarrow> w) = ''100%''
                      \<and> (case map_of atts ''height'' of None \<Rightarrow> [] | Some h \<Rightarrow> h) = ''100%''))"
    for atts t
    using dimensions_decide[of "\<lambda>_. page [4] [] atts" t "page [4] [] atts" 6 5 3 4 "[5, 4, 3]"
        "map_of atts", OF refl h2 h3 h4 h5 h6 h7 h8 a[symmetric]] .
  show ?thesis
    using w[of "[(''width'', ''100%''), (''height'', ''99%'')]" height_99_text]
      w[of "[(''width'', ''100%'')]" no_height_text]
      w[of full_size quoted_text]
    by (simp add: a h3 full_size_def)
qed




text \<open>
  C8. The scan with the early exit decides as the scan of all children does: the check
  of line 634 gives the same answer on both. Once two significant children have been
  seen, children that follow change nothing, and a body with more than one significant
  child makes the detector return false.
\<close>

theorem early_exit_same_decision:
  "child_check (scan_children gi cs ([], 0)) = child_check (full_scan gi cs)
   \<and> (1 < length (significant_children gi cs)
        \<longrightarrow> scan_children gi (cs @ later) ([], 0) = scan_children gi cs ([], 0))
   \<and> (parse text = gi \<and> get_all_nodes_with_tag gi GUMBO_TAG_BODY = [body_node]
        \<and> 1 < length (significant_children gi (children (node gi body_node)))
        \<longrightarrow> fixup_fullscreen_svg_images parse text = Some (Inr False))"
proof (intro conjI impI)
  show "child_check (scan_children gi cs ([], 0)) = child_check (full_scan gi cs)"
    by (rule child_check_scan)
next
  assume "1 < length (significant_children gi cs)"
  then show "scan_children gi (cs @ later) ([], 0) = scan_children gi cs ([], 0)"
    by (simp add: scan_children_full significant_children_append)
next
  assume a: "parse text = gi \<and> get_all_nodes_with_tag gi GUMBO_TAG_BODY = [body_node]
        \<and> 1 < length (significant_children gi (children (node gi body_node)))"
  show "fixup_fullscreen_svg_images parse text = Some (Inr False)"
  proof (cases "length (get_all_nodes_with_tag gi GUMBO_TAG_IMAGE) = 1
                \<and> length (get_all_nodes_with_tag gi GUMBO_TAG_SVG) = 1")
    case False
    then show ?thesis
      using detector_wrong_counts[of parse "text" gi] a by blast
  next
    case True
    then obtain image_node svg_node where
      "get_all_nodes_with_tag gi GUMBO_TAG_IMAGE = [image_node]"
      "get_all_nodes_with_tag gi GUMBO_TAG_SVG = [svg_node]"
      using length_one by blast
    from detector_on_counts[of parse "text" gi, OF _ this] a show ?thesis by auto
  qed
qed

theorem early_exit_same_decision_witness:
  "get_all_nodes_with_tag (page [4, 8, 9] [] full_size) GUMBO_TAG_BODY = [3]
   \<and> significant_children (page [4, 8, 9] [] full_size)
        (children (node (page [4, 8, 9] [] full_size) 3)) = [4, 8, 9]
   \<and> scan_children (page [4, 8, 9] [] full_size) ([4, 8] @ [9]) ([], 0) = ([''div'', ''p''], 2)
   \<and> fixup_fullscreen_svg_images (\<lambda>_. page [4, 8, 9] [] full_size) paragraphs_text
       = Some (Inr False)"
proof -
  let ?gi = "page [4, 8, 9] [] full_size"
  have b: "get_all_nodes_with_tag ?gi GUMBO_TAG_BODY = [3]" by (simp add: fixture_defs)
  have s: "significant_children ?gi (children (node ?gi 3)) = [4, 8, 9]"
    by (simp add: fixture_defs spec_defs)
  have s2: "1 < length (significant_children ?gi [4, 8])" by (simp add: fixture_defs spec_defs)
  have sc: "scan_children ?gi [4, 8] ([], 0) = ([''div'', ''p''], 2)"
    by (simp add: fixture_defs ignore_tag_def HEADERTAGS_def)
  from early_exit_same_decision[of ?gi "[4, 8]" "[9]" "\<lambda>_. ?gi" paragraphs_text 3] b s s2 sc
  show ?thesis by simp
qed

text \<open>
  C9. The read of \<open>child_names.at(0)\<close> in line 634 is in bounds. The scan keeps the length
  of the name list equal to the tally, so when the tally is 1 the list holds exactly one
  name and the check does not fail; and the detector as a whole never ends in an
  out-of-range access.
\<close>

theorem first_name_in_bounds:
  assumes "scan_children gi cs ([], 0) = (child_names, elcount)"
  shows "int (length child_names) = elcount
         \<and> (elcount = 1 \<longrightarrow> length child_names = 1
               \<and> child_check (child_names, elcount) = Inr (child_names ! 0 \<in> set allowed_tags))
         \<and> child_check (child_names, elcount) \<noteq> Inl IndexOutOfRange
         \<and> fixup_fullscreen_svg_images parse text \<noteq> Some (Inl IndexOutOfRange)"
proof -
  from scan_children_invariant[OF _ assms] have inv: "int (length child_names) = elcount" by simp
  have one: "length child_names = 1
      \<and> child_check (child_names, elcount) = Inr (child_names ! 0 \<in> set allowed_tags)"
    if "elcount = 1"
    using inv that by (cases child_names) (auto simp: child_check_def)
  from inv one child_check_in_bounds[OF inv] detector_in_bounds show ?thesis by blast
qed

theorem first_name_in_bounds_witness:
  "scan_children (page [7, 4] [] full_size) [7, 4] ([], 0) = ([''div''], 1)
   \<and> child_check ([''div''], 1) = Inr True
   \<and> fixup_fullscreen_svg_images (\<lambda>_. page [7, 4] [] full_size) empty_heading_text
       \<noteq> Some (Inl IndexOutOfRange)"
proof -
  have sc: "scan_children (page [7, 4] [] full_size) [7, 4] ([], 0) = ([''div''], 1)"
    by (simp add: fixture_defs ignore_tag_def HEADERTAGS_def)
  from first_name_in_bounds[OF sc, of "\<lambda>_. page [7, 4] [] full_size" empty_heading_text] sc
  show ?thesis by (simp add: allowed_tags_def)
qed

text \<open>
  C10. When the body element is among the ancestors of the image node, that is, when some
  number of parent links leads from the image to it, the walk of lines 640-647 ends there
  with a path, and the detector returns a boolean: no null parent is dereferenced and the
  loop does not run on. Nothing is asked of the rest of the tree; the walk only follows
  the parent links of the image.
\<close>

theorem detector_returns:
  assumes "parse text = gi"
    and "get_all_nodes_with_tag gi GUMBO_TAG_IMAGE = [image_node]"
    and "nth_ancestor gi n image_node = Some body_node"
    and "is_body gi body_node"
  shows "(\<exists>path_pieces. ancestor_loop gi (Some image_node) [get_tag_name gi image_node]
                           = Some (Inr path_pieces))
         \<and> (\<exists>b. fixup_fullscreen_svg_images parse text = Some (Inr b))"
proof -
  from nth_ancestor_chain[OF assms(3,4)] obtain ps where ps: "ancestors_to_body gi image_node ps"
    by blast
  have loop: "\<exists>path_pieces. ancestor_loop gi (Some image_node) [get_tag_name gi image_node]
                           = Some (Inr path_pieces)"
    using ancestor_loop_chain[OF ps] by simp
  have "\<exists>b. fixup_fullscreen_svg_images parse text = Some (Inr b)"
  proof (cases "length (get_all_nodes_with_tag gi GUMBO_TAG_SVG) = 1
                \<and> length (get_all_nodes_with_tag gi GUMBO_TAG_BODY) = 1")
    case False
    then have "fixup_fullscreen_svg_images parse text = Some (Inr False)"
      using detector_wrong_counts[of parse "text" gi, OF assms(1)] by blast
    then show ?thesis by blast
  next
    case True
    then obtain svg_node the_body where
      "get_all_nodes_with_tag gi GUMBO_TAG_SVG = [svg_node]"
      "get_all_nodes_with_tag gi GUMBO_TAG_BODY = [the_body]"
      using length_one by blast
    from detector_on_chain[of parse "text" gi, OF assms(1,2) this ps] show ?thesis by blast
  qed
  with loop show ?thesis by blast
qed

theorem detector_returns_witness:
  "get_all_nodes_with_tag (page [4] [] full_size) GUMBO_TAG_IMAGE = [6]
   \<and> nth_ancestor (page [4] [] full_size) 3 6 = Some 3
   \<and> is_body (page [4] [] full_size) 3
   \<and> (\<exists>b. fixup_fullscreen_svg_images (\<lambda>_. page [4] [] full_size) quoted_text = Some (Inr b))"
proof -
  have h2: "get_all_nodes_with_tag (page [4] [] full_size) GUMBO_TAG_IMAGE = [6]"
    by (simp add: fixture_defs)
  have h3: "nth_ancestor (page [4] [] full_size) 3 6 = Some 3"
    by (simp add: fixture_defs numeral_3_eq_3)
  have h4: "is_body (page [4] [] full_size) 3" by (simp add: fixture_defs is_body_def)
  from detector_returns[of "\<lambda>_. page [4] [] full_size" quoted_text, OF refl h2 h3 h4] h2 h3 h4
  show ?thesis by simp
qed

end
